theory Spec2Isabelle
  imports Main
begin

section \<open>The selector builder of 05-objects-tasks.js\<close>

text \<open>
  The embedding follows the class \<open>SimpleSelector\<close> and the object
  \<open>cssSelectorBuilder\<close> of \<^verbatim>\<open>src/05-objects-tasks.js\<close>. A method that mutates
  \<open>this\<close> takes the object and returns the object as the method left it; a
  \<open>throw\<close> is the left injection of the result, paired with the object as it was
  when the exception left the method (the fields written before the \<open>throw\<close> stay
  written). Values and combinators are strings.
\<close>

subsection \<open>Errors\<close>

text \<open>
  The source throws \<open>Error\<close> with one of two messages.
  \<open>DuplicateSelectorPartError\<close> stands for "Element, id and pseudo-element should
  not occur more then one time inside the selector", \<open>SelectorOrderError\<close> for
  "Selector parts should be arranged in the following order: element, id, class,
  attribute, pseudo-class, pseudo-element".
\<close>

datatype error = DuplicateSelectorPartError | SelectorOrderError

subsection \<open>The object\<close>

record SimpleSelector =
  str :: string
  stack :: "nat list"
  isElement :: bool
  isId :: bool
  isPseudoElement :: bool

text \<open>The constructor.\<close>

definition new_SimpleSelector :: SimpleSelector where
  "new_SimpleSelector =
     \<lparr>str = '''', stack = [], isElement = False, isId = False, isPseudoElement = False\<rparr>"

text \<open>
  \<open>Array.prototype.pop\<close> removes and returns the last element, or returns
  \<open>undefined\<close> (here \<open>None\<close>) on the empty array, which it leaves empty;
  \<open>Array.prototype.push\<close> appends at the end.
\<close>

definition pop :: "nat list \<Rightarrow> nat option \<times> nat list" where
  "pop xs = (if xs = [] then (None, []) else (Some (last xs), butlast xs))"

definition push :: "nat \<Rightarrow> nat list \<Rightarrow> nat list" where
  "push x xs = xs @ [x]"

text \<open>
  The test \<open>lastOrder && lastOrder > n\<close>: \<open>undefined\<close> and \<open>0\<close> are falsy, any
  other number is truthy and is then compared.
\<close>

definition order_violated :: "nat option \<Rightarrow> nat \<Rightarrow> bool" where
  "order_violated lastOrder n =
     (case lastOrder of None \<Rightarrow> False | Some l \<Rightarrow> l \<noteq> 0 \<and> l > n)"

subsection \<open>The methods of SimpleSelector\<close>

definition stringify :: "SimpleSelector \<Rightarrow> (error + string) \<times> SimpleSelector" where
  "stringify s = (Inr (str s), s)"

definition element :: "string \<Rightarrow> SimpleSelector \<Rightarrow> (error + unit) \<times> SimpleSelector" where
  "element v s =
     (if isElement s then (Inl DuplicateSelectorPartError, s)
      else
        let s1 = s\<lparr>isElement := True\<rparr>;
            s2 = s1\<lparr>str := str s1 @ v\<rparr>;
            (lastOrder, rest) = pop (stack s2);
            s3 = s2\<lparr>stack := rest\<rparr>
        in if order_violated lastOrder 0 then (Inl SelectorOrderError, s3)
           else (Inr (), s3\<lparr>stack := push 0 (stack s3)\<rparr>))"

definition id_sel :: "string \<Rightarrow> SimpleSelector \<Rightarrow> (error + unit) \<times> SimpleSelector" where
  "id_sel v s =
     (if isId s then (Inl DuplicateSelectorPartError, s)
      else
        let s1 = s\<lparr>isId := True\<rparr>;
            s2 = s1\<lparr>str := str s1 @ ''#'' @ v\<rparr>;
            (lastOrder, rest) = pop (stack s2);
            s3 = s2\<lparr>stack := rest\<rparr>
        in if order_violated lastOrder 1 then (Inl SelectorOrderError, s3)
           else (Inr (), s3\<lparr>stack := push 1 (stack s3)\<rparr>))"

definition class_sel :: "string \<Rightarrow> SimpleSelector \<Rightarrow> (error + unit) \<times> SimpleSelector" where
  "class_sel v s =
     (let s2 = s\<lparr>str := str s @ ''.'' @ v\<rparr>;
          (lastOrder, rest) = pop (stack s2);
          s3 = s2\<lparr>stack := rest\<rparr>
      in if order_violated lastOrder 2 then (Inl SelectorOrderError, s3)
         else (Inr (), s3\<lparr>stack := push 2 (stack s3)\<rparr>))"

definition attr :: "string \<Rightarrow> SimpleSelector \<Rightarrow> (error + unit) \<times> SimpleSelector" where
  "attr v s =
     (let s2 = s\<lparr>str := str s @ ''['' @ v @ '']''\<rparr>;
          (lastOrder, rest) = pop (stack s2);
          s3 = s2\<lparr>stack := rest\<rparr>
      in if order_violated lastOrder 3 then (Inl SelectorOrderError, s3)
         else (Inr (), s3\<lparr>stack := push 3 (stack s3)\<rparr>))"

definition pseudoClass :: "string \<Rightarrow> SimpleSelector \<Rightarrow> (error + unit) \<times> SimpleSelector" where
  "pseudoClass v s =
     (let s2 = s\<lparr>str := str s @ '':'' @ v\<rparr>;
          (lastOrder, rest) = pop (stack s2);
          s3 = s2\<lparr>stack := rest\<rparr>
      in if order_violated lastOrder 4 then (Inl SelectorOrderError, s3)
         else (Inr (), s3\<lparr>stack := push 4 (stack s3)\<rparr>))"

definition pseudoElement :: "string \<Rightarrow> SimpleSelector \<Rightarrow> (error + unit) \<times> SimpleSelector" where
  "pseudoElement v s =
     (if isPseudoElement s then (Inl DuplicateSelectorPartError, s)
      else
        let s1 = s\<lparr>isPseudoElement := True\<rparr>;
            s2 = s1\<lparr>str := str s1 @ ''::'' @ v\<rparr>;
            (lastOrder, rest) = pop (stack s2);
            s3 = s2\<lparr>stack := rest\<rparr>
        in if order_violated lastOrder 5 then (Inl SelectorOrderError, s3)
           else (Inr (), s3\<lparr>stack := push 5 (stack s3)\<rparr>))"

text \<open>
  \<open>combine(combinator, selector)\<close>: \<open>selector\<close> is the object passed as argument,
  read through its \<open>stringify\<close>; the receiver is the last parameter.
\<close>

definition combine ::
  "string \<Rightarrow> SimpleSelector \<Rightarrow> SimpleSelector \<Rightarrow> (error + unit) \<times> SimpleSelector" where
  "combine combinator selector s =
     (case fst (stringify selector) of
        Inl e \<Rightarrow> (Inl e, s)
      | Inr t \<Rightarrow> (Inr (), s\<lparr>str := str s @ '' '' @ combinator @ '' '' @ t\<rparr>))"

subsection \<open>Fragment calls by kind, and sequences of calls\<close>

datatype part = Element | Id | Class | Attr | PseudoClass | PseudoElement

fun call :: "part \<Rightarrow> string \<Rightarrow> SimpleSelector \<Rightarrow> (error + unit) \<times> SimpleSelector" where
  "call Element v s = element v s"
| "call Id v s = id_sel v s"
| "call Class v s = class_sel v s"
| "call Attr v s = attr v s"
| "call PseudoClass v s = pseudoClass v s"
| "call PseudoElement v s = pseudoElement v s"

text \<open>The number each method compares with and pushes.\<close>

fun rank :: "part \<Rightarrow> nat" where
  "rank Element = 0"
| "rank Id = 1"
| "rank Class = 2"
| "rank Attr = 3"
| "rank PseudoClass = 4"
| "rank PseudoElement = 5"

text \<open>The text each method appends.\<close>

fun fragment :: "part \<Rightarrow> string \<Rightarrow> string" where
  "fragment Element v = v"
| "fragment Id v = ''#'' @ v"
| "fragment Class v = ''.'' @ v"
| "fragment Attr v = ''['' @ v @ '']''"
| "fragment PseudoClass v = '':'' @ v"
| "fragment PseudoElement v = ''::'' @ v"

text \<open>The flag a method tests first; \<open>class\<close>, \<open>attr\<close> and \<open>pseudoClass\<close> test none.\<close>

fun already_set :: "part \<Rightarrow> SimpleSelector \<Rightarrow> bool" where
  "already_set Element s = isElement s"
| "already_set Id s = isId s"
| "already_set PseudoElement s = isPseudoElement s"
| "already_set _ s = False"

text \<open>The flag a method sets once its first test has passed.\<close>

fun mark :: "part \<Rightarrow> SimpleSelector \<Rightarrow> SimpleSelector" where
  "mark Element s = s\<lparr>isElement := True\<rparr>"
| "mark Id s = s\<lparr>isId := True\<rparr>"
| "mark PseudoElement s = s\<lparr>isPseudoElement := True\<rparr>"
| "mark _ s = s"

text \<open>
  A method chain \<open>e.a(..).b(..)\<close>: each method returns \<open>this\<close>, and the first
  exception ends the chain.
\<close>

fun chain :: "(part \<times> string) list \<Rightarrow> SimpleSelector \<Rightarrow> (error + unit) \<times> SimpleSelector" where
  "chain [] s = (Inr (), s)"
| "chain ((k, v) # cs) s =
     (case call k v s of
        (Inl e, s') \<Rightarrow> (Inl e, s')
      | (Inr u, s') \<Rightarrow> chain cs s')"

text \<open>
  Calls made one after the other on the same object by a caller that catches
  exceptions: every call runs, whatever the earlier ones did.
\<close>

fun perform :: "(part \<times> string) list \<Rightarrow> SimpleSelector \<Rightarrow> SimpleSelector" where
  "perform [] s = s"
| "perform ((k, v) # cs) s = perform cs (snd (call k v s))"

text \<open>
  The states an object can be in: built by the constructor, then changed only by
  its methods, whether they return or throw.
\<close>

inductive reachable :: "SimpleSelector \<Rightarrow> bool" where
  constructed: "reachable new_SimpleSelector"
| after_call: "reachable s \<Longrightarrow> reachable (snd (call k v s))"
| after_combine: "reachable s \<Longrightarrow> reachable (snd (combine c selector s))"
| after_stringify: "reachable s \<Longrightarrow> reachable (snd (stringify s))"

subsection \<open>Objects by reference, and the facade\<close>

text \<open>
  Expressions are shared by reference: \<open>combine\<close> may receive the same object twice,
  and the facade keeps the last one in \<open>result\<close>. The heap is the list of the objects
  allocated so far, a reference is an index into it, and \<open>new\<close> appends.
\<close>

type_synonym ref = nat

record world =
  heap :: "SimpleSelector list"
  result :: "ref option"

text \<open>
  A method call on the object behind a reference. The references a program holds
  are allocated, \<open>r < length (heap w)\<close>; the theorems that read the heap assume it.
\<close>

definition invoke ::
  "(SimpleSelector \<Rightarrow> (error + 'a) \<times> SimpleSelector) \<Rightarrow> ref \<Rightarrow> world \<Rightarrow> (error + 'a) \<times> world" where
  "invoke m r w =
     (let (res, s') = m (heap w ! r) in (res, w\<lparr>heap := (heap w)[r := s']\<rparr>))"

text \<open>The fragment methods end with \<open>return this\<close>.\<close>

definition returning_this :: "ref \<Rightarrow> (error + unit) \<times> world \<Rightarrow> (error + ref) \<times> world" where
  "returning_this r x = (case x of (Inl e, w) \<Rightarrow> (Inl e, w) | (Inr u, w) \<Rightarrow> (Inr r, w))"

definition ref_call :: "part \<Rightarrow> string \<Rightarrow> ref \<Rightarrow> world \<Rightarrow> (error + ref) \<times> world" where
  "ref_call k v r w = returning_this r (invoke (call k v) r w)"

definition ref_stringify :: "ref \<Rightarrow> world \<Rightarrow> (error + string) \<times> world" where
  "ref_stringify r w = invoke stringify r w"

text \<open>
  \<open>this.combine(combinator, selector)\<close> through references: the argument is read
  from the heap as it is at the call (it may be the receiver itself), and only the
  receiver is written back, \<open>stringify\<close> leaving its object as it was
  (\<open>stringify_state\<close> below).
\<close>

definition ref_combine :: "string \<Rightarrow> ref \<Rightarrow> ref \<Rightarrow> world \<Rightarrow> (error + ref) \<times> world" where
  "ref_combine combinator selector r w =
     returning_this r (invoke (combine combinator (heap w ! selector)) r w)"

definition new_ref :: "world \<Rightarrow> ref \<times> world" where
  "new_ref w = (length (heap w), w\<lparr>heap := heap w @ [new_SimpleSelector]\<rparr>)"

definition cssSelectorBuilder_element :: "string \<Rightarrow> world \<Rightarrow> (error + ref) \<times> world" where
  "cssSelectorBuilder_element v w =
     (let (r, w1) = new_ref w; w2 = w1\<lparr>result := Some r\<rparr>
      in returning_this r (invoke (element v) r w2))"

definition cssSelectorBuilder_id :: "string \<Rightarrow> world \<Rightarrow> (error + ref) \<times> world" where
  "cssSelectorBuilder_id v w =
     (let (r, w1) = new_ref w; w2 = w1\<lparr>result := Some r\<rparr>
      in returning_this r (invoke (id_sel v) r w2))"

definition cssSelectorBuilder_class :: "string \<Rightarrow> world \<Rightarrow> (error + ref) \<times> world" where
  "cssSelectorBuilder_class v w =
     (let (r, w1) = new_ref w; w2 = w1\<lparr>result := Some r\<rparr>
      in returning_this r (invoke (class_sel v) r w2))"

definition cssSelectorBuilder_attr :: "string \<Rightarrow> world \<Rightarrow> (error + ref) \<times> world" where
  "cssSelectorBuilder_attr v w =
     (let (r, w1) = new_ref w; w2 = w1\<lparr>result := Some r\<rparr>
      in returning_this r (invoke (attr v) r w2))"

definition cssSelectorBuilder_pseudoClass :: "string \<Rightarrow> world \<Rightarrow> (error + ref) \<times> world" where
  "cssSelectorBuilder_pseudoClass v w =
     (let (r, w1) = new_ref w; w2 = w1\<lparr>result := Some r\<rparr>
      in returning_this r (invoke (pseudoClass v) r w2))"

definition cssSelectorBuilder_pseudoElement :: "string \<Rightarrow> world \<Rightarrow> (error + ref) \<times> world" where
  "cssSelectorBuilder_pseudoElement v w =
     (let (r, w1) = new_ref w; w2 = w1\<lparr>result := Some r\<rparr>
      in returning_this r (invoke (pseudoElement v) r w2))"

text \<open>
  \<open>cssSelectorBuilder.combine\<close>: the assignment to \<open>result\<close> happens only when
  \<open>selector1.combine\<close> has returned.
\<close>

definition cssSelectorBuilder_combine ::
  "ref \<Rightarrow> string \<Rightarrow> ref \<Rightarrow> world \<Rightarrow> (error + ref) \<times> world" where
  "cssSelectorBuilder_combine selector1 combinator selector2 w =
     (case ref_combine combinator selector2 selector1 w of
        (Inl e, w') \<Rightarrow> (Inl e, w')
      | (Inr r, w') \<Rightarrow> (Inr r, w'\<lparr>result := Some r\<rparr>))"

text \<open>The six entry points by kind.\<close>

fun cssSelectorBuilder_call :: "part \<Rightarrow> string \<Rightarrow> world \<Rightarrow> (error + ref) \<times> world" where
  "cssSelectorBuilder_call Element v w = cssSelectorBuilder_element v w"
| "cssSelectorBuilder_call Id v w = cssSelectorBuilder_id v w"
| "cssSelectorBuilder_call Class v w = cssSelectorBuilder_class v w"
| "cssSelectorBuilder_call Attr v w = cssSelectorBuilder_attr v w"
| "cssSelectorBuilder_call PseudoClass v w = cssSelectorBuilder_pseudoClass v w"
| "cssSelectorBuilder_call PseudoElement v w = cssSelectorBuilder_pseudoElement v w"

text \<open>
  A chain on a reference, \<open>r.a(..).b(..)\<close>, and a chain that starts at the facade,
  \<open>cssSelectorBuilder.a(..).b(..)\<close>: each call is made on what the one before
  returned.
\<close>

fun ref_chain :: "(part \<times> string) list \<Rightarrow> ref \<Rightarrow> world \<Rightarrow> (error + ref) \<times> world" where
  "ref_chain [] r w = (Inr r, w)"
| "ref_chain ((k, v) # cs) r w =
     (case ref_call k v r w of
        (Inl e, w') \<Rightarrow> (Inl e, w')
      | (Inr r', w') \<Rightarrow> ref_chain cs r' w')"

definition builder_chain ::
  "part \<times> string \<Rightarrow> (part \<times> string) list \<Rightarrow> world \<Rightarrow> (error + ref) \<times> world" where
  "builder_chain c cs w =
     (case cssSelectorBuilder_call (fst c) (snd c) w of
        (Inl e, w') \<Rightarrow> (Inl e, w')
      | (Inr r, w') \<Rightarrow> ref_chain cs r w')"

text \<open>
  Fragment calls on several objects, interleaved in any way, by a caller that
  catches exceptions.
\<close>

fun run_calls :: "(ref \<times> part \<times> string) list \<Rightarrow> world \<Rightarrow> world" where
  "run_calls [] w = w"
| "run_calls ((r, k, v) # cs) w = run_calls cs (snd (ref_call k v r w))"

text \<open>The calls of an interleaving whose receiver is \<open>r\<close>.\<close>

definition calls_on :: "ref \<Rightarrow> (ref \<times> part \<times> string) list \<Rightarrow> (part \<times> string) list" where
  "calls_on r cs = map snd (filter (\<lambda>c. fst c = r) cs)"

text \<open>The state of the program before anything is built.\<close>

definition initial_world :: world where
  "initial_world = \<lparr>heap = [], result = None\<rparr>"

text \<open>
  Two programs used as examples. The first builds \<open>div#main\<close> (reference 0) and
  \<open>table#data\<close> (reference 1). The second builds the four operands of the example
  in the source's comment, in the order JavaScript evaluates the arguments:
  \<open>div#main.container.draggable\<close> (0), \<open>table#data\<close> (1),
  \<open>tr:nth-of-type(even)\<close> (2), \<open>td:nth-of-type(even)\<close> (3).
\<close>

definition two_selectors :: world where
  "two_selectors =
     snd (builder_chain (Element, ''table'') [(Id, ''data'')]
       (snd (builder_chain (Element, ''div'') [(Id, ''main'')] initial_world)))"

definition four_selectors :: world where
  "four_selectors =
     snd (builder_chain (Element, ''td'') [(PseudoClass, ''nth-of-type(even)'')]
       (snd (builder_chain (Element, ''tr'') [(PseudoClass, ''nth-of-type(even)'')]
         (snd (builder_chain (Element, ''table'') [(Id, ''data'')]
           (snd (builder_chain (Element, ''div'')
                  [(Id, ''main''), (Class, ''container''), (Class, ''draggable'')]
                  initial_world)))))))"

section \<open>Basic facts\<close>

lemma stringify_result: "fst (stringify s) = Inr (str s)"
  by (simp add: stringify_def)

lemma stringify_state: "snd (stringify s) = s"
  by (simp add: stringify_def)

lemma combine_result: "fst (combine c selector s) = Inr ()"
  by (simp add: combine_def stringify_def)

lemma combine_state:
  "snd (combine c selector s) = s\<lparr>str := str s @ '' '' @ c @ '' '' @ str selector\<rparr>"
  by (simp add: combine_def stringify_def)

text \<open>
  The six fragment methods have one shape: the flag test (for \<open>element\<close>, \<open>id\<close>,
  \<open>pseudoElement\<close>), then the writes to the flag and to \<open>str\<close>, then \<open>pop\<close>, the
  comparison with the method's own number, and \<open>push\<close> when the comparison fails.
\<close>

lemma call_unfold:
  "call k v s =
     (if already_set k s then (Inl DuplicateSelectorPartError, s)
      else if stack s \<noteq> [] \<and> rank k < last (stack s)
      then (Inl SelectorOrderError,
            (mark k s)\<lparr>str := str s @ fragment k v, stack := butlast (stack s)\<rparr>)
      else (Inr (),
            (mark k s)\<lparr>str := str s @ fragment k v, stack := butlast (stack s) @ [rank k]\<rparr>))"
  by (cases k)
     (auto simp: element_def id_sel_def class_sel_def attr_def pseudoClass_def
        pseudoElement_def pop_def push_def order_violated_def Let_def)

lemma already_set_mark:
  "already_set k' (mark k s) \<longleftrightarrow>
     already_set k' s \<or> (k' = k \<and> (k = Element \<or> k = Id \<or> k = PseudoElement))"
  by (cases k; cases k') simp_all

lemma stack_mark [simp]: "stack (mark k s) = stack s"
  by (cases k) simp_all

lemma str_mark [simp]: "str (mark k s) = str s"
  by (cases k) simp_all

lemma already_set_fields [simp]:
  "already_set k (s\<lparr>str := t\<rparr>) = already_set k s"
  "already_set k (s\<lparr>stack := st\<rparr>) = already_set k s"
  by (cases k; simp)+

lemma already_set_call:
  "already_set k' (snd (call k v s)) \<longleftrightarrow>
     already_set k' s \<or> (k' = k \<and> (k = Element \<or> k = Id \<or> k = PseudoElement))"
  by (auto simp: call_unfold already_set_mark)

lemma already_set_perform:
  "already_set k s \<Longrightarrow> already_set k (perform cs s)"
  by (induction cs arbitrary: s) (auto simp: already_set_call)

lemma call_duplicate:
  "already_set k s \<Longrightarrow> call k v s = (Inl DuplicateSelectorPartError, s)"
  by (simp add: call_unfold)

lemma call_returns:
  assumes "fst (call k v s) = Inr ()"
  shows "stack (snd (call k v s)) = butlast (stack s) @ [rank k]"
    and "str (snd (call k v s)) = str s @ fragment k v"
  using assms by (auto simp: call_unfold split: if_splits)

text \<open>Every method pops before it pushes, so the stack never holds two numbers.\<close>

lemma stack_reachable: "reachable s \<Longrightarrow> length (stack s) \<le> 1"
proof (induction rule: reachable.induct)
  case constructed
  show ?case by (simp add: new_SimpleSelector_def)
next
  case (after_call s k v)
  then show ?case by (auto simp: call_unfold)
next
  case (after_combine s c selector)
  then show ?case by (simp add: combine_state)
next
  case (after_stringify s)
  then show ?case by (simp add: stringify_state)
qed

subsection \<open>Objects by reference\<close>

text \<open>
  A method called through a reference writes the receiver's slot of the heap and
  nothing else; the facade allocates the next slot.
\<close>

lemma returning_this_fst:
  "fst (returning_this r x) = (case fst x of Inl e \<Rightarrow> Inl e | Inr u \<Rightarrow> Inr r)"
  by (cases x) (auto simp: returning_this_def split: sum.splits)

lemma returning_this_snd [simp]: "snd (returning_this r x) = snd x"
  by (cases x) (auto simp: returning_this_def split: sum.splits)

lemma invoke_fst: "fst (invoke m r w) = fst (m (heap w ! r))"
  by (simp add: invoke_def split: prod.splits)

lemma invoke_snd: "snd (invoke m r w) = w\<lparr>heap := (heap w)[r := snd (m (heap w ! r))]\<rparr>"
  by (simp add: invoke_def split: prod.splits)

lemma ref_stringify_fst: "fst (ref_stringify r w) = Inr (str (heap w ! r))"
  by (simp add: ref_stringify_def invoke_fst stringify_result)

lemma ref_stringify_snd: "snd (ref_stringify r w) = w"
  by (simp add: ref_stringify_def invoke_snd stringify_state)

lemma ref_call_snd:
  "snd (ref_call k v r w) = w\<lparr>heap := (heap w)[r := snd (call k v (heap w ! r))]\<rparr>"
  by (simp add: ref_call_def invoke_snd)

lemma ref_call_fst:
  "fst (ref_call k v r w) = (case fst (call k v (heap w ! r)) of Inl e \<Rightarrow> Inl e | Inr u \<Rightarrow> Inr r)"
  by (simp add: ref_call_def returning_this_fst invoke_fst)

lemma ref_combine_fst: "fst (ref_combine c selector r w) = Inr r"
  by (simp add: ref_combine_def returning_this_fst invoke_fst combine_result)

lemma ref_combine_snd:
  "snd (ref_combine c selector r w) =
     w\<lparr>heap := (heap w)[r := (heap w ! r)\<lparr>str := str (heap w ! r) @ '' '' @ c @ '' '' @ str (heap w ! selector)\<rparr>]\<rparr>"
  by (simp add: ref_combine_def invoke_snd combine_state)

lemma builder_combine_fst: "fst (cssSelectorBuilder_combine l c r w) = Inr l"
  using ref_combine_fst [of c r l w]
  by (cases "ref_combine c r l w") (simp add: cssSelectorBuilder_combine_def)

lemma builder_combine_heap:
  "heap (snd (cssSelectorBuilder_combine l c r w)) =
     (heap w)[l := (heap w ! l)\<lparr>str := str (heap w ! l) @ '' '' @ c @ '' '' @ str (heap w ! r)\<rparr>]"
  using ref_combine_fst [of c r l w] ref_combine_snd [of c r l w]
  by (cases "ref_combine c r l w") (simp add: cssSelectorBuilder_combine_def)

lemma builder_combine_result:
  "result (snd (cssSelectorBuilder_combine l c r w)) = Some l"
  using ref_combine_fst [of c r l w]
  by (cases "ref_combine c r l w") (simp add: cssSelectorBuilder_combine_def)

lemma call_method:
  "call Element v = element v" "call Id v = id_sel v" "call Class v = class_sel v"
  "call Attr v = attr v" "call PseudoClass v = pseudoClass v"
  "call PseudoElement v = pseudoElement v"
  by (rule ext, simp)+

lemma builder_call_unfold:
  "cssSelectorBuilder_call k v w =
     returning_this (length (heap w))
       (invoke (call k v) (length (heap w))
          (w\<lparr>heap := heap w @ [new_SimpleSelector], result := Some (length (heap w))\<rparr>))"
  by (cases k)
     (simp_all add: cssSelectorBuilder_element_def cssSelectorBuilder_id_def
        cssSelectorBuilder_class_def cssSelectorBuilder_attr_def
        cssSelectorBuilder_pseudoClass_def cssSelectorBuilder_pseudoElement_def
        new_ref_def Let_def call_method)

lemma call_new_returns: "fst (call k v new_SimpleSelector) = Inr ()"
  by (cases k) (simp_all add: call_unfold new_SimpleSelector_def)

lemma builder_call_fst: "fst (cssSelectorBuilder_call k v w) = Inr (length (heap w))"
  by (simp add: builder_call_unfold returning_this_fst invoke_fst call_new_returns)

lemma builder_call_heap:
  "heap (snd (cssSelectorBuilder_call k v w)) = heap w @ [snd (call k v new_SimpleSelector)]"
  by (simp add: builder_call_unfold invoke_snd)

lemma builder_call_result:
  "result (snd (cssSelectorBuilder_call k v w)) = Some (length (heap w))"
  by (simp add: builder_call_unfold invoke_snd)

lemma run_calls_length [simp]: "length (heap (run_calls cs w)) = length (heap w)"
  by (induction cs w rule: run_calls.induct) (simp_all add: ref_call_snd)

lemma run_calls_nth:
  "r < length (heap w) \<Longrightarrow> heap (run_calls cs w) ! r = perform (calls_on r cs) (heap w ! r)"
proof (induction cs w rule: run_calls.induct)
  case (1 w)
  show ?case by (simp add: calls_on_def)
next
  case (2 r' k v cs w)
  let ?w = "snd (ref_call k v r' w)"
  from "2.prems" have "r < length (heap ?w)"
    by (simp add: ref_call_snd)
  then have "heap (run_calls cs ?w) ! r = perform (calls_on r cs) (heap ?w ! r)"
    by (rule "2.IH")
  moreover have "perform (calls_on r cs) (heap ?w ! r) =
      perform (calls_on r ((r', k, v) # cs)) (heap w ! r)"
    using "2.prems" by (cases "r' = r") (simp_all add: calls_on_def ref_call_snd)
  ultimately show ?case by simp
qed

lemma calls_on_filter: "calls_on r (filter (\<lambda>c. fst c = r) cs) = calls_on r cs"
  by (simp add: calls_on_def)

subsection \<open>Chains\<close>

text \<open>
  A chain whose ranks do not decrease and whose singleton parts are not yet set
  returns, and appends its fragments in call order. The statement is about any
  starting object, as the induction needs.
\<close>

lemma chain_valid:
  assumes "sorted (map (rank \<circ> fst) cs)"
    and "\<And>k. k = Element \<or> k = Id \<or> k = PseudoElement \<Longrightarrow> count_list (map fst cs) k \<le> 1"
    and "\<And>c. c \<in> set cs \<Longrightarrow> \<not> already_set (fst c) s"
    and "stack s = [] \<or> (\<forall>c \<in> set cs. last (stack s) \<le> rank (fst c))"
  shows "fst (chain cs s) = Inr () \<and>
         str (snd (chain cs s)) = str s @ concat (map (\<lambda>(k, v). fragment k v) cs)"
  using assms
proof (induction cs arbitrary: s)
  case Nil
  show ?case by simp
next
  case (Cons c cs)
  obtain k v where c: "c = (k, v)" by (cases c)
  let ?s1 = "snd (call k v s)"
  from Cons.prems(3) [of c] c have notset: "\<not> already_set k s" by simp
  from Cons.prems(4) c have ord: "stack s = [] \<or> last (stack s) \<le> rank k" by auto
  from notset ord have ret: "fst (call k v s) = Inr ()"
    by (auto simp: call_unfold)
  then have st1: "stack ?s1 = butlast (stack s) @ [rank k]"
    and tx1: "str ?s1 = str s @ fragment k v"
    by (simp_all add: call_returns)
  have sorted': "sorted (map (rank \<circ> fst) cs)"
    using Cons.prems(1) by (simp add: comp_def)
  have counts': "count_list (map fst cs) k' \<le> 1"
    if "k' = Element \<or> k' = Id \<or> k' = PseudoElement" for k'
    using Cons.prems(2) [OF that] by (simp split: if_splits)
  have flags': "\<not> already_set (fst c') ?s1" if "c' \<in> set cs" for c'
  proof -
    from that Cons.prems(3) [of c'] have old: "\<not> already_set (fst c') s" by simp
    have "fst c' \<noteq> k" if single: "k = Element \<or> k = Id \<or> k = PseudoElement"
    proof
      assume "fst c' = k"
      with \<open>c' \<in> set cs\<close> have "k \<in> set (map fst cs)" by force
      then have "count_list (map fst cs) k \<noteq> 0"
        by (simp only: count_list_0_iff not_not)
      moreover from Cons.prems(2) [OF single] c have "count_list (map fst cs) k = 0"
        by simp
      ultimately show False by simp
    qed
    with old show ?thesis
      by (auto simp: already_set_call)
  qed
  have stack': "stack ?s1 = [] \<or> (\<forall>c' \<in> set cs. last (stack ?s1) \<le> rank (fst c'))"
    using Cons.prems(1) c st1 by auto
  from Cons.IH [OF sorted' counts' flags' stack'] 
  have "fst (chain cs ?s1) = Inr () \<and>
        str (snd (chain cs ?s1)) = str ?s1 @ concat (map (\<lambda>(k, v). fragment k v) cs)"
    by simp
  with ret tx1 c show ?case
    by (cases "call k v s") (auto split: sum.splits)
qed

lemma ref_chain_chain:
  "r < length (heap w) \<Longrightarrow>
   ref_chain cs r w =
     ((case fst (chain cs (heap w ! r)) of Inl e \<Rightarrow> Inl e | Inr u \<Rightarrow> Inr r),
      w\<lparr>heap := (heap w)[r := snd (chain cs (heap w ! r))]\<rparr>)"
proof (induction cs arbitrary: w)
  case Nil
  show ?case by simp
next
  case (Cons c cs)
  obtain k v where c: "c = (k, v)" by (cases c)
  let ?w1 = "snd (ref_call k v r w)"
  show ?case
  proof (cases "fst (call k v (heap w ! r))")
    case (Inl e)
    then have "fst (ref_call k v r w) = Inl e"
      by (simp add: ref_call_fst)
    with Inl c show ?thesis
      by (cases "ref_call k v r w"; cases "call k v (heap w ! r)")
         (use ref_call_snd [of k v r w] in auto)
  next
    case (Inr u)
    then have f: "fst (ref_call k v r w) = Inr r"
      by (simp add: ref_call_fst)
    from Cons.prems have "r < length (heap ?w1)"
      by (simp add: ref_call_snd)
    from Cons.IH [OF this] Cons.prems
    have "ref_chain cs r ?w1 =
      ((case fst (chain cs (snd (call k v (heap w ! r)))) of Inl e \<Rightarrow> Inl e | Inr u \<Rightarrow> Inr r),
       w\<lparr>heap := (heap w)[r := snd (chain cs (snd (call k v (heap w ! r))))]\<rparr>)"
      by (simp add: ref_call_snd)
    with f Inr c show ?thesis
      by (cases "ref_call k v r w"; cases "call k v (heap w ! r)") auto
  qed
qed

lemma chain_Cons_new:
  "chain ((k, v) # cs) new_SimpleSelector = chain cs (snd (call k v new_SimpleSelector))"
  using call_new_returns [of k v] by (cases "call k v new_SimpleSelector") auto

lemma builder_chain_chain:
  "fst (builder_chain c cs w) =
     (case fst (chain (c # cs) new_SimpleSelector) of
        Inl e \<Rightarrow> Inl e | Inr u \<Rightarrow> Inr (length (heap w)))"
  "heap (snd (builder_chain c cs w)) = heap w @ [snd (chain (c # cs) new_SimpleSelector)]"
  "result (snd (builder_chain c cs w)) = Some (length (heap w))"
proof -
  obtain k v where c: "c = (k, v)" by (cases c)
  let ?w1 = "snd (cssSelectorBuilder_call k v w)"
  let ?n = "length (heap w)"
  have valid: "?n < length (heap ?w1)"
    by (simp add: builder_call_heap)
  have "builder_chain c cs w = ref_chain cs ?n ?w1"
    using builder_call_fst [of k v w] c
    by (cases "cssSelectorBuilder_call k v w") (simp add: builder_chain_def)
  also have "\<dots> = ((case fst (chain cs (heap ?w1 ! ?n)) of Inl e \<Rightarrow> Inl e | Inr u \<Rightarrow> Inr ?n),
      ?w1\<lparr>heap := (heap ?w1)[?n := snd (chain cs (heap ?w1 ! ?n))]\<rparr>)"
    by (rule ref_chain_chain [OF valid])
  finally have eq: "builder_chain c cs w =
      ((case fst (chain (c # cs) new_SimpleSelector) of Inl e \<Rightarrow> Inl e | Inr u \<Rightarrow> Inr ?n),
       ?w1\<lparr>heap := heap w @ [snd (chain (c # cs) new_SimpleSelector)]\<rparr>)"
    by (simp add: builder_call_heap c chain_Cons_new del: chain.simps)
  show "fst (builder_chain c cs w) =
     (case fst (chain (c # cs) new_SimpleSelector) of
        Inl e \<Rightarrow> Inl e | Inr u \<Rightarrow> Inr (length (heap w)))"
    by (simp add: eq)
  show "heap (snd (builder_chain c cs w)) = heap w @ [snd (chain (c # cs) new_SimpleSelector)]"
    by (simp add: eq)
  show "result (snd (builder_chain c cs w)) = Some (length (heap w))"
    by (simp add: eq builder_call_result)
qed

subsection \<open>Combining, and the examples\<close>

text \<open>
  \<open>combine\<close> writes the receiver only. Nested, with the inner combination as the
  right operand, the outer one reads the text the inner one has just written.
\<close>

lemma combine_text:
  assumes "selector1 < length (heap w)"
  shows "fst (ref_stringify selector1 (snd (cssSelectorBuilder_combine selector1 c selector2 w))) =
           Inr (str (heap w ! selector1) @ '' '' @ c @ '' '' @ str (heap w ! selector2))"
  using assms by (simp add: ref_stringify_fst builder_combine_heap)

lemma combine_nested:
  assumes "x < length (heap w)" and "y < length (heap w)" and "x \<noteq> y"
  shows "fst (ref_stringify x
           (snd (cssSelectorBuilder_combine x c1 y
             (snd (cssSelectorBuilder_combine y c2 z w))))) =
         Inr (str (heap w ! x) @ '' '' @ c1 @ '' '' @
              str (heap w ! y) @ '' '' @ c2 @ '' '' @ str (heap w ! z))"
  using assms by (simp add: ref_stringify_fst builder_combine_heap)

lemma two_selectors_heap:
  "heap two_selectors =
     [\<lparr>str = ''div#main'', stack = [1], isElement = True, isId = True, isPseudoElement = False\<rparr>,
      \<lparr>str = ''table#data'', stack = [1], isElement = True, isId = True, isPseudoElement = False\<rparr>]"
  by (simp add: two_selectors_def builder_chain_chain initial_world_def element_def id_sel_def
      new_SimpleSelector_def pop_def push_def order_violated_def)

lemma four_selectors_heap:
  "heap four_selectors =
     [\<lparr>str = ''div#main.container.draggable'', stack = [2], isElement = True, isId = True,
        isPseudoElement = False\<rparr>,
      \<lparr>str = ''table#data'', stack = [1], isElement = True, isId = True,
        isPseudoElement = False\<rparr>,
      \<lparr>str = ''tr:nth-of-type(even)'', stack = [4], isElement = True, isId = False,
        isPseudoElement = False\<rparr>,
      \<lparr>str = ''td:nth-of-type(even)'', stack = [4], isElement = True, isId = False,
        isPseudoElement = False\<rparr>]"
  by (simp add: four_selectors_def builder_chain_chain initial_world_def element_def id_sel_def
      class_sel_def pseudoClass_def new_SimpleSelector_def pop_def push_def order_violated_def)

text \<open>The example of the source's comment, with its three spaces.\<close>

lemma combine_source_example:
  "fst (ref_stringify 0
     (snd (cssSelectorBuilder_combine 0 ''+'' 1
       (snd (cssSelectorBuilder_combine 1 ''~'' 2
         (snd (cssSelectorBuilder_combine 2 '' '' 3 four_selectors))))))) =
   Inr ''div#main.container.draggable + table#data ~ tr:nth-of-type(even)   td:nth-of-type(even)''"
  by (simp add: ref_stringify_fst builder_combine_heap four_selectors_heap)

text \<open>\<open>cssSelectorBuilder.id('x').element('y')\<close>, from the facade.\<close>

lemma facade_order_example:
  "fst (ref_call Element ''y'' 0 (snd (cssSelectorBuilder_id ''x'' initial_world))) =
     Inl SelectorOrderError"
  using builder_call_heap [of Id "''x''" initial_world]
  by (simp add: ref_call_fst initial_world_def id_sel_def element_def new_SimpleSelector_def
      pop_def push_def order_violated_def)

subsection \<open>Interleaved calls\<close>

lemma run_calls_text:
  "r < length (heap w) \<Longrightarrow>
   fst (ref_stringify r (run_calls cs w)) = Inr (str (perform (calls_on r cs) (heap w ! r)))"
  by (simp add: ref_stringify_fst run_calls_nth)

lemma calls_on_others:
  "\<forall>c \<in> set cs. fst c \<noteq> r \<Longrightarrow> calls_on r cs = []"
  by (induction cs) (auto simp: calls_on_def)

section \<open>The claims\<close>

text \<open>
  C3. On every expression, a second \<open>element\<close> call raises
  \<open>DuplicateSelectorPartError\<close>, whatever the first call did (returned or threw) and
  whatever fragment calls \<open>cs\<close> were made between the two, returning or throwing; the
  same for a second \<open>id\<close> and a second \<open>pseudoElement\<close>.
\<close>

theorem twice_raises_duplicate:
  "fst (element v' (perform cs (snd (element v s)))) = Inl DuplicateSelectorPartError \<and>
   fst (id_sel v' (perform cs (snd (id_sel v s)))) = Inl DuplicateSelectorPartError \<and>
   fst (pseudoElement v' (perform cs (snd (pseudoElement v s)))) = Inl DuplicateSelectorPartError"
proof -
  have twice: "fst (call k v' (perform cs (snd (call k v s)))) = Inl DuplicateSelectorPartError"
    if "k = Element \<or> k = Id \<or> k = PseudoElement" for k
  proof -
    from that have "already_set k (snd (call k v s))"
      by (simp add: already_set_call)
    then have "already_set k (perform cs (snd (call k v s)))"
      by (rule already_set_perform)
    then show ?thesis
      by (simp add: call_duplicate)
  qed
  from twice [of Element] twice [of Id] twice [of PseudoElement] show ?thesis
    by simp
qed

text \<open>
  C9. \<open>stringify\<close> leaves the object as it was (the text, the stack and the three
  flags), and a second \<open>stringify\<close> right after the first returns the same string;
  the same through a reference, where the whole heap and the facade's \<open>result\<close> are
  left as they were.
\<close>

theorem stringify_pure:
  "snd (stringify s) = s \<and>
   fst (stringify (snd (stringify s))) = fst (stringify s) \<and>
   snd (ref_stringify r w) = w \<and>
   fst (ref_stringify r (snd (ref_stringify r w))) = fst (ref_stringify r w)"
  by (simp add: stringify_state ref_stringify_snd)

text \<open>
  C8. \<open>stringify\<close> returns a string (the accumulated text) in every state of the
  object, and \<open>combine\<close> returns for every receiver, argument and combinator, on the
  object and through the facade: neither raises either error.
\<close>

theorem stringify_combine_never_raise:
  "fst (stringify s) = Inr (str s) \<and>
   fst (combine c selector s) = Inr () \<and>
   fst (ref_stringify r w) = Inr (str (heap w ! r)) \<and>
   fst (ref_combine c selector2 selector1 w) = Inr selector1 \<and>
   fst (cssSelectorBuilder_combine selector1 c selector2 w) = Inr selector1"
  by (simp add: stringify_result combine_result ref_stringify_fst ref_combine_fst
      builder_combine_fst)

text \<open>
  C1, amended. When a fragment call has returned, and so recorded its rank, a next
  fragment call of strictly lower rank raises \<open>SelectorOrderError\<close>, unless it is
  \<open>element\<close> or \<open>id\<close> on an expression where that part is already set: the method
  tests its flag first and raises \<open>DuplicateSelectorPartError\<close>.
\<close>

theorem order_after_success:
  assumes "fst (call k1 v1 s) = Inr ()" and "rank k2 < rank k1"
  shows "fst (call k2 v2 (snd (call k1 v1 s))) =
           (if already_set k2 s then Inl DuplicateSelectorPartError else Inl SelectorOrderError)"
proof -
  let ?s1 = "snd (call k1 v1 s)"
  from assms(2) have "k2 \<noteq> k1" by auto
  then have flag: "already_set k2 ?s1 = already_set k2 s"
    by (simp add: already_set_call)
  from assms(1) have "stack ?s1 \<noteq> []" and "last (stack ?s1) = rank k1"
    by (simp_all add: call_returns)
  with assms(2) flag show ?thesis
    by (simp add: call_unfold [of k2])
qed

text \<open>In particular \<open>id('x').element('y')\<close> raises \<open>SelectorOrderError\<close>.\<close>

theorem order_after_success_witness:
  "fst (id_sel ''x'' new_SimpleSelector) = Inr () \<and> rank Element < rank Id \<and>
   \<not> isElement new_SimpleSelector \<and>
   fst (element ''y'' (snd (id_sel ''x'' new_SimpleSelector))) = Inl SelectorOrderError"
proof -
  have r: "fst (call Id ''x'' new_SimpleSelector) = Inr ()"
    by (rule call_new_returns)
  have "rank Element < rank Id" by simp
  from order_after_success [OF r this, of "''y''"] r show ?thesis
    by (simp add: new_SimpleSelector_def)
qed

text \<open>
  C1 as stated fails on \<open>element('a').id('b').element('c')\<close>: \<open>id\<close> returns and
  records rank 1, the next call has rank 0, and it raises
  \<open>DuplicateSelectorPartError\<close>.
\<close>

theorem order_after_success_counterexample:
  "fst (id_sel ''b'' (snd (element ''a'' new_SimpleSelector))) = Inr () \<and>
   rank Element < rank Id \<and>
   fst (element ''c'' (snd (id_sel ''b'' (snd (element ''a'' new_SimpleSelector))))) =
     Inl DuplicateSelectorPartError \<and>
   fst (element ''c'' (snd (id_sel ''b'' (snd (element ''a'' new_SimpleSelector))))) \<noteq>
     Inl SelectorOrderError"
  by (simp add: element_def id_sel_def new_SimpleSelector_def pop_def push_def
      order_violated_def)

text \<open>
  C6, amended. In \<open>element\<close>, \<open>id\<close> and \<open>pseudoElement\<close> the singleton check comes
  first: when the part is already set the call raises
  \<open>DuplicateSelectorPartError\<close> and leaves the expression as it was, whatever rank is
  recorded, so also when the order is violated too.
\<close>

theorem duplicate_check_first:
  "(isElement s \<longrightarrow> element v s = (Inl DuplicateSelectorPartError, s)) \<and>
   (isId s \<longrightarrow> id_sel v s = (Inl DuplicateSelectorPartError, s)) \<and>
   (isPseudoElement s \<longrightarrow> pseudoElement v s = (Inl DuplicateSelectorPartError, s))"
  by (simp add: element_def id_sel_def pseudoElement_def)

text \<open>
  C6 as stated fails on \<open>element('a').class('b').element('c')\<close>: the part is set,
  the recorded rank 2 is above 0, and the error is \<open>DuplicateSelectorPartError\<close>.
\<close>

theorem duplicate_check_first_counterexample:
  "fst (chain [(Element, ''a''), (Class, ''b''), (Element, ''c'')] new_SimpleSelector) \<noteq>
     Inl SelectorOrderError \<and>
   fst (chain [(Element, ''a''), (Class, ''b'')] new_SimpleSelector) = Inr () \<and>
   isElement (snd (chain [(Element, ''a''), (Class, ''b'')] new_SimpleSelector)) \<and>
   stack (snd (chain [(Element, ''a''), (Class, ''b'')] new_SimpleSelector)) = [2] \<and>
   fst (element ''c'' (snd (chain [(Element, ''a''), (Class, ''b'')] new_SimpleSelector))) =
     Inl DuplicateSelectorPartError"
  by (simp add: element_def class_sel_def new_SimpleSelector_def pop_def push_def
      order_violated_def)

text \<open>
  After \<open>element\<close>, \<open>id\<close> and \<open>pseudoElement\<close> the recorded rank is 5 and all three
  parts are set: \<open>element\<close> and \<open>id\<close> now violate both constraints.
\<close>

theorem duplicate_check_first_witness:
  "isElement (perform [(Element, ''a''), (Id, ''b''), (PseudoElement, ''c'')] new_SimpleSelector) \<and>
   isId (perform [(Element, ''a''), (Id, ''b''), (PseudoElement, ''c'')] new_SimpleSelector) \<and>
   isPseudoElement (perform [(Element, ''a''), (Id, ''b''), (PseudoElement, ''c'')] new_SimpleSelector) \<and>
   stack (perform [(Element, ''a''), (Id, ''b''), (PseudoElement, ''c'')] new_SimpleSelector) = [5] \<and>
   fst (element ''d'' (perform [(Element, ''a''), (Id, ''b''), (PseudoElement, ''c'')] new_SimpleSelector)) =
     Inl DuplicateSelectorPartError \<and>
   fst (id_sel ''d'' (perform [(Element, ''a''), (Id, ''b''), (PseudoElement, ''c'')] new_SimpleSelector)) =
     Inl DuplicateSelectorPartError \<and>
   fst (pseudoElement ''d'' (perform [(Element, ''a''), (Id, ''b''), (PseudoElement, ''c'')] new_SimpleSelector)) =
     Inl DuplicateSelectorPartError"
proof -
  let ?s = "perform [(Element, ''a''), (Id, ''b''), (PseudoElement, ''c'')] new_SimpleSelector"
  have flags: "isElement ?s \<and> isId ?s \<and> isPseudoElement ?s \<and> stack ?s = [5]"
    by (simp add: element_def id_sel_def pseudoElement_def new_SimpleSelector_def pop_def
        push_def order_violated_def)
  with duplicate_check_first [of ?s "''d''"] show ?thesis
    by simp
qed

text \<open>
  C10. On an expression in any state it can reach, a fragment call that raises
  \<open>SelectorOrderError\<close> has set its flag, appended its fragment and emptied the stack:
  \<open>stringify\<close> then shows the rejected fragment, and no later fragment call raises
  \<open>SelectorOrderError\<close>. A call that raises \<open>DuplicateSelectorPartError\<close> leaves
  the expression as it was.
\<close>

theorem error_leaves_state:
  assumes "reachable s" and "call k v s = (Inl e, s')"
  shows "case e of
           SelectorOrderError \<Rightarrow>
             s' = (mark k s)\<lparr>str := str s @ fragment k v, stack := []\<rparr> \<and>
             stack s \<noteq> [] \<and>
             fst (stringify s') = Inr (str s @ fragment k v) \<and>
             (\<forall>k' v'. fst (call k' v' s') \<noteq> Inl SelectorOrderError)
         | DuplicateSelectorPartError \<Rightarrow> s' = s"
proof (cases e)
  case DuplicateSelectorPartError
  with assms(2) show ?thesis
    by (auto simp: call_unfold split: if_splits)
next
  case SelectorOrderError
  from assms(1) have len: "length (stack s) \<le> 1" by (rule stack_reachable)
  from assms(2) SelectorOrderError
  have s': "s' = (mark k s)\<lparr>str := str s @ fragment k v, stack := butlast (stack s)\<rparr>"
    and ne: "stack s \<noteq> []"
    by (auto simp: call_unfold split: if_splits)
  from len have "butlast (stack s) = []"
    by (cases "stack s") auto
  with s' have eq: "s' = (mark k s)\<lparr>str := str s @ fragment k v, stack := []\<rparr>"
    by simp
  then have "fst (call k' v' s') \<noteq> Inl SelectorOrderError" for k' v'
    by (simp add: call_unfold)
  with eq ne SelectorOrderError show ?thesis
    by (simp add: stringify_result)
qed

text \<open>
  \<open>id('x').element('y')\<close> throws and leaves \<open>#xy\<close>, after which \<open>class('z')\<close>
  returns; \<open>element('a').element('b')\<close> throws and changes nothing.
\<close>

theorem error_leaves_state_witness:
  "reachable (snd (id_sel ''x'' new_SimpleSelector)) \<and>
   fst (element ''y'' (snd (id_sel ''x'' new_SimpleSelector))) = Inl SelectorOrderError \<and>
   fst (stringify (snd (element ''y'' (snd (id_sel ''x'' new_SimpleSelector))))) = Inr ''#xy'' \<and>
   stack (snd (element ''y'' (snd (id_sel ''x'' new_SimpleSelector)))) = [] \<and>
   fst (class_sel ''z'' (snd (element ''y'' (snd (id_sel ''x'' new_SimpleSelector))))) = Inr () \<and>
   reachable (snd (element ''a'' new_SimpleSelector)) \<and>
   element ''b'' (snd (element ''a'' new_SimpleSelector)) =
     (Inl DuplicateSelectorPartError, snd (element ''a'' new_SimpleSelector))"
proof -
  let ?s = "snd (id_sel ''x'' new_SimpleSelector)"
  let ?t = "snd (element ''a'' new_SimpleSelector)"
  have rs: "reachable ?s"
    using after_call [OF constructed, of Id "''x''"] by simp
  have rt: "reachable ?t"
    using after_call [OF constructed, of Element "''a''"] by simp
  have cs: "call Element ''y'' ?s = (Inl SelectorOrderError, snd (element ''y'' ?s))"
    by (simp add: element_def id_sel_def new_SimpleSelector_def pop_def push_def
        order_violated_def)
  have ct: "call Element ''b'' ?t = (Inl DuplicateSelectorPartError, snd (element ''b'' ?t))"
    by (simp add: element_def new_SimpleSelector_def pop_def push_def order_violated_def)
  from error_leaves_state [OF rs cs] error_leaves_state [OF rt ct] rs rt cs ct
  show ?thesis
    by (simp add: id_sel_def class_sel_def new_SimpleSelector_def pop_def push_def
        order_violated_def stringify_def)
qed

text \<open>
  C2. A sequence of fragment calls on a new expression whose ranks do not decrease,
  with \<open>element\<close>, \<open>id\<close> and \<open>pseudoElement\<close> at most once each, raises no error, and
  \<open>stringify\<close> then returns the fragments in call order, each in its format: the
  value, \<open>#value\<close>, \<open>.value\<close>, \<open>[value]\<close>, \<open>:value\<close>, \<open>::value\<close>. This holds on
  the object the constructor builds and for a chain that starts at the facade, in
  any state of the program.
\<close>

theorem valid_sequence_stringify:
  assumes "sorted (map (rank \<circ> fst) cs)"
    and "count_list (map fst cs) Element \<le> 1"
    and "count_list (map fst cs) Id \<le> 1"
    and "count_list (map fst cs) PseudoElement \<le> 1"
  shows "fst (chain cs new_SimpleSelector) = Inr () \<and>
         fst (stringify (snd (chain cs new_SimpleSelector))) =
           Inr (concat (map (\<lambda>(k, v). fragment k v) cs)) \<and>
         (\<forall>c cs' w. cs = c # cs' \<longrightarrow>
            fst (builder_chain c cs' w) = Inr (length (heap w)) \<and>
            fst (ref_stringify (length (heap w)) (snd (builder_chain c cs' w))) =
              Inr (concat (map (\<lambda>(k, v). fragment k v) cs)))"
proof -
  have counts: "count_list (map fst cs) k \<le> 1"
    if "k = Element \<or> k = Id \<or> k = PseudoElement" for k
    using that assms(2-4) by auto
  have flags: "\<not> already_set (fst c) new_SimpleSelector" for c
    by (cases "fst c") (simp_all add: new_SimpleSelector_def)
  have "stack new_SimpleSelector = [] \<or>
      (\<forall>c \<in> set cs. last (stack new_SimpleSelector) \<le> rank (fst c))"
    by (simp add: new_SimpleSelector_def)
  from chain_valid [OF assms(1) counts flags this]
  have obj: "fst (chain cs new_SimpleSelector) = Inr ()"
    and appended: "str (snd (chain cs new_SimpleSelector)) = concat (map (\<lambda>(k, v). fragment k v) cs)"
    by (simp_all add: new_SimpleSelector_def)
  have "fst (builder_chain c cs' w) = Inr (length (heap w)) \<and>
        fst (ref_stringify (length (heap w)) (snd (builder_chain c cs' w))) =
          Inr (concat (map (\<lambda>(k, v). fragment k v) cs))"
    if "cs = c # cs'" for c cs' w
    using obj appended that
    by (simp add: builder_chain_chain ref_stringify_fst del: chain.simps)
  with obj appended show ?thesis
    by (simp add: stringify_result)
qed

text \<open>
  \<open>id('main').class('container').class('editable').stringify()\<close> is
  \<open>#main.container.editable\<close>.
\<close>

theorem valid_sequence_stringify_witness:
  "sorted (map (rank \<circ> fst) [(Id, ''main''), (Class, ''container''), (Class, ''editable'')]) \<and>
   fst (builder_chain (Id, ''main'') [(Class, ''container''), (Class, ''editable'')] initial_world)
     = Inr 0 \<and>
   fst (ref_stringify 0
     (snd (builder_chain (Id, ''main'') [(Class, ''container''), (Class, ''editable'')]
        initial_world))) = Inr ''#main.container.editable''"
proof -
  let ?cs = "[(Id, ''main''), (Class, ''container''), (Class, ''editable'')]"
  have 1: "sorted (map (rank \<circ> fst) ?cs)" by simp
  have 2: "count_list (map fst ?cs) Element \<le> 1" by simp
  have 3: "count_list (map fst ?cs) Id \<le> 1" by simp
  have 4: "count_list (map fst ?cs) PseudoElement \<le> 1" by simp
  have "length (heap initial_world) = 0"
    by (simp add: initial_world_def)
  moreover from valid_sequence_stringify [OF 1 2 3 4]
  have "fst (builder_chain (Id, ''main'') [(Class, ''container''), (Class, ''editable'')]
               initial_world) = Inr (length (heap initial_world)) \<and>
        fst (ref_stringify (length (heap initial_world))
          (snd (builder_chain (Id, ''main'') [(Class, ''container''), (Class, ''editable'')]
             initial_world))) =
        Inr (concat (map (\<lambda>(k, v). fragment k v) ?cs))"
    by blast
  ultimately show ?thesis
    using 1 by simp
qed

text \<open>
  C4. For two expressions with texts \<open>a\<close> and \<open>b\<close> and any combinator \<open>c\<close>,
  \<open>combine(left, c, right)\<close> returns an expression whose text is \<open>a\<close>, a space,
  \<open>c\<close>, a space, \<open>b\<close>; with the space as combinator, three spaces stand between
  \<open>a\<close> and \<open>b\<close>. The two operands may be the same object, and either may be the
  result of an earlier combination.
\<close>

theorem combine_stringify:
  assumes "selector1 < length (heap w)" and "selector2 < length (heap w)"
    and "fst (ref_stringify selector1 w) = Inr a"
    and "fst (ref_stringify selector2 w) = Inr b"
    and "cssSelectorBuilder_combine selector1 c selector2 w = (res, w')"
  shows "\<exists>e. res = Inr e \<and>
           fst (ref_stringify e w') = Inr (a @ '' '' @ c @ '' '' @ b) \<and>
           (c = '' '' \<longrightarrow> fst (ref_stringify e w') = Inr (a @ ''   '' @ b))"
proof -
  from assms(5) have res: "res = Inr selector1"
    using builder_combine_fst [of selector1 c selector2 w] by simp
  from assms(5) have w': "w' = snd (cssSelectorBuilder_combine selector1 c selector2 w)"
    by simp
  from assms(3,4) have "str (heap w ! selector1) = a" and "str (heap w ! selector2) = b"
    by (simp_all add: ref_stringify_fst)
  with combine_text [OF assms(1), of c selector2] w'
  have "fst (ref_stringify selector1 w') = Inr (a @ '' '' @ c @ '' '' @ b)"
    by simp
  with res show ?thesis by simp
qed

text \<open>
  \<open>div#main\<close> and \<open>table#data\<close> give \<open>div#main + table#data\<close>, and three spaces
  with the space combinator.
\<close>

theorem combine_stringify_witness:
  "fst (ref_stringify 0 two_selectors) = Inr ''div#main'' \<and>
   fst (ref_stringify 1 two_selectors) = Inr ''table#data'' \<and>
   fst (cssSelectorBuilder_combine 0 ''+'' 1 two_selectors) = Inr 0 \<and>
   fst (ref_stringify 0 (snd (cssSelectorBuilder_combine 0 ''+'' 1 two_selectors))) =
     Inr ''div#main + table#data'' \<and>
   fst (ref_stringify 0 (snd (cssSelectorBuilder_combine 0 '' '' 1 two_selectors))) =
     Inr ''div#main   table#data''"
proof -
  have v0: "0 < length (heap two_selectors)" and v1: "1 < length (heap two_selectors)"
    by (simp_all add: two_selectors_heap)
  have a: "fst (ref_stringify 0 two_selectors) = Inr ''div#main''"
    and b: "fst (ref_stringify 1 two_selectors) = Inr ''table#data''"
    by (simp_all add: ref_stringify_fst two_selectors_heap)
  have plus: "cssSelectorBuilder_combine 0 ''+'' 1 two_selectors =
      (Inr 0, snd (cssSelectorBuilder_combine 0 ''+'' 1 two_selectors))"
    using builder_combine_fst [of 0 "''+''" 1 two_selectors]
    by (cases "cssSelectorBuilder_combine 0 ''+'' 1 two_selectors") simp
  have space: "cssSelectorBuilder_combine 0 '' '' 1 two_selectors =
      (Inr 0, snd (cssSelectorBuilder_combine 0 '' '' 1 two_selectors))"
    using builder_combine_fst [of 0 "'' ''" 1 two_selectors]
    by (cases "cssSelectorBuilder_combine 0 '' '' 1 two_selectors") simp
  from combine_stringify [OF v0 v1 a b plus] combine_stringify [OF v0 v1 a b space] a b
  show ?thesis
    by (simp add: builder_combine_fst)
qed

text \<open>
  C5, amended. \<open>combine\<close> returns its left operand, to whose text it has appended
  a space, the combinator, a space and the text of the right operand, leaving the
  left operand's stack and flags as they were; so the left operand's text is never
  what it was before. Every other expression is left as it was, so the right
  operand keeps its text when it is not the same object as the left one.
\<close>

theorem combine_mutates_left_only:
  assumes "selector1 < length (heap w)" and "selector2 < length (heap w)"
    and "cssSelectorBuilder_combine selector1 c selector2 w = (res, w')"
  shows "res = Inr selector1 \<and>
         fst (ref_stringify selector1 w') =
           Inr (str (heap w ! selector1) @ '' '' @ c @ '' '' @ str (heap w ! selector2)) \<and>
         heap w' ! selector1 =
           (heap w ! selector1)
             \<lparr>str := str (heap w ! selector1) @ '' '' @ c @ '' '' @ str (heap w ! selector2)\<rparr> \<and>
         fst (ref_stringify selector1 w') \<noteq> fst (ref_stringify selector1 w) \<and>
         length (heap w') = length (heap w) \<and>
         (\<forall>r. r \<noteq> selector1 \<longrightarrow> heap w' ! r = heap w ! r) \<and>
         (selector2 \<noteq> selector1 \<longrightarrow>
            fst (ref_stringify selector2 w') = fst (ref_stringify selector2 w))"
proof -
  from assms(3) have res: "res = Inr selector1"
    using builder_combine_fst [of selector1 c selector2 w] by simp
  from assms(3) have w': "w' = snd (cssSelectorBuilder_combine selector1 c selector2 w)"
    by simp
  have frame: "heap w' ! r = heap w ! r" if "r \<noteq> selector1" for r
    using that by (simp add: w' builder_combine_heap)
  have left: "heap w' ! selector1 =
      (heap w ! selector1)
        \<lparr>str := str (heap w ! selector1) @ '' '' @ c @ '' '' @ str (heap w ! selector2)\<rparr>"
    using assms(1) by (simp add: w' builder_combine_heap)
  have appended: "fst (ref_stringify selector1 w') =
      Inr (str (heap w ! selector1) @ '' '' @ c @ '' '' @ str (heap w ! selector2))"
    using combine_text [OF assms(1), of c selector2] by (simp add: w')
  have size: "length (heap w') = length (heap w)"
    by (simp add: w' builder_combine_heap)
  have changed: "fst (ref_stringify selector1 w') \<noteq> fst (ref_stringify selector1 w)"
    by (simp add: appended) (simp add: ref_stringify_fst)
  from frame have right: "selector2 \<noteq> selector1 \<longrightarrow>
      fst (ref_stringify selector2 w') = fst (ref_stringify selector2 w)"
    by (simp add: ref_stringify_fst)
  from res appended left changed size frame right show ?thesis
    by blast
qed

text \<open>
  C5 as stated fails on \<open>combine(a, '+', b)\<close> with \<open>a\<close> = \<open>div#main\<close> and \<open>b\<close> =
  \<open>table#data\<close>: afterwards \<open>a.stringify()\<close> is \<open>div#main + table#data\<close>.
\<close>

theorem combine_mutates_left_only_counterexample:
  "fst (ref_stringify 0 two_selectors) = Inr ''div#main'' \<and>
   fst (ref_stringify 0 (snd (cssSelectorBuilder_combine 0 ''+'' 1 two_selectors))) =
     Inr ''div#main + table#data'' \<and>
   fst (ref_stringify 0 (snd (cssSelectorBuilder_combine 0 ''+'' 1 two_selectors))) \<noteq>
     fst (ref_stringify 0 two_selectors)"
  by (simp add: ref_stringify_fst builder_combine_heap two_selectors_heap)

text \<open>
  With \<open>>\<close> on the same two expressions, the left one becomes
  \<open>div#main > table#data\<close> and the right one keeps \<open>table#data\<close>.
\<close>

theorem combine_mutates_left_only_witness:
  "fst (cssSelectorBuilder_combine 0 ''>'' 1 two_selectors) = Inr 0 \<and>
   fst (ref_stringify 0 (snd (cssSelectorBuilder_combine 0 ''>'' 1 two_selectors))) =
     Inr ''div#main > table#data'' \<and>
   fst (ref_stringify 1 (snd (cssSelectorBuilder_combine 0 ''>'' 1 two_selectors))) =
     Inr ''table#data'' \<and>
   fst (ref_stringify 0 (snd (cssSelectorBuilder_combine 0 ''>'' 1 two_selectors))) \<noteq>
     Inr ''div#main''"
proof -
  have v0: "0 < length (heap two_selectors)" and v1: "1 < length (heap two_selectors)"
    by (simp_all add: two_selectors_heap)
  have c: "cssSelectorBuilder_combine 0 ''>'' 1 two_selectors =
      (Inr 0, snd (cssSelectorBuilder_combine 0 ''>'' 1 two_selectors))"
    using builder_combine_fst [of 0 "''>''" 1 two_selectors]
    by (cases "cssSelectorBuilder_combine 0 ''>'' 1 two_selectors") simp
  from combine_mutates_left_only [OF v0 v1 c] show ?thesis
    by (simp add: ref_stringify_fst two_selectors_heap builder_combine_fst)
qed

text \<open>
  C7. An entry call of the facade returns a reference \<open>r\<close> that no expression had
  before, to the object the like-named method makes of a new object, and leaves
  every earlier expression \<open>r'\<close> as it was. After that, in any interleaving of
  fragment calls on the expressions of the program, the text of \<open>r\<close> and the text
  of \<open>r'\<close> are what their own calls alone produce: calls on \<open>r\<close> do not change
  the text of \<open>r'\<close>, and calls on \<open>r'\<close> do not change the text of \<open>r\<close>.
\<close>

theorem entry_returns_independent_expression:
  assumes "cssSelectorBuilder_call k v w = (res, w')" and "r' < length (heap w)"
  shows "\<exists>r. res = Inr r \<and> r \<noteq> r' \<and> length (heap w) \<le> r \<and>
           r < length (heap w') \<and> r' < length (heap w') \<and>
           heap w' ! r = snd (call k v new_SimpleSelector) \<and>
           heap w' ! r' = heap w ! r' \<and>
           (\<forall>cs. fst (ref_stringify r (run_calls cs w')) =
                   fst (ref_stringify r (run_calls (filter (\<lambda>c. fst c = r) cs) w')) \<and>
                 fst (ref_stringify r' (run_calls cs w')) =
                   fst (ref_stringify r' (run_calls (filter (\<lambda>c. fst c = r') cs) w'))) \<and>
           (\<forall>cs. (\<forall>c \<in> set cs. fst c = r) \<longrightarrow>
                   fst (ref_stringify r' (run_calls cs w')) = fst (ref_stringify r' w)) \<and>
           (\<forall>cs. (\<forall>c \<in> set cs. fst c = r') \<longrightarrow>
                   fst (ref_stringify r (run_calls cs w')) = fst (ref_stringify r w'))"
proof -
  let ?r = "length (heap w)"
  from assms(1) have res: "res = Inr ?r"
    using builder_call_fst [of k v w] by simp
  from assms(1) have w': "w' = snd (cssSelectorBuilder_call k v w)"
    by simp
  have hp: "heap w' = heap w @ [snd (call k v new_SimpleSelector)]"
    by (simp add: w' builder_call_heap)
  from assms(2) have ne: "?r \<noteq> r'" by simp
  from hp have vr: "?r < length (heap w')" by simp
  from hp assms(2) have vr': "r' < length (heap w')" by simp
  from hp have new: "heap w' ! ?r = snd (call k v new_SimpleSelector)"
    by simp
  from hp assms(2) have old: "heap w' ! r' = heap w ! r'"
    by (simp add: nth_append)
  have proj: "fst (ref_stringify x (run_calls cs w')) =
      fst (ref_stringify x (run_calls (filter (\<lambda>c. fst c = x) cs) w'))"
    if "x < length (heap w')" for x cs
    using that by (simp add: run_calls_text calls_on_filter)
  have frame1: "fst (ref_stringify r' (run_calls cs w')) = fst (ref_stringify r' w)"
    if "\<forall>c \<in> set cs. fst c = ?r" for cs
  proof -
    from that ne have "calls_on r' cs = []"
      by (intro calls_on_others) auto
    with vr' old show ?thesis
      by (simp add: ref_stringify_fst run_calls_nth)
  qed
  have frame2: "fst (ref_stringify ?r (run_calls cs w')) = fst (ref_stringify ?r w')"
    if "\<forall>c \<in> set cs. fst c = r'" for cs
  proof -
    from that ne have "calls_on ?r cs = []"
      by (intro calls_on_others) auto
    with vr show ?thesis
      by (simp add: ref_stringify_fst run_calls_nth)
  qed
  from res ne vr vr' new old proj [OF vr] proj [OF vr'] frame1 frame2
  show ?thesis by simp
qed

text \<open>
  After \<open>div#main\<close> (0) and \<open>table#data\<close> (1), \<open>class('note')\<close> returns reference
  2; calls on 2 leave \<open>table#data\<close>, calls on 1 leave \<open>.note\<close>, and a call on 1
  between calls on 2 changes nothing for 2.
\<close>

theorem entry_returns_independent_expression_witness:
  "fst (cssSelectorBuilder_call Class ''note'' two_selectors) = Inr 2 \<and>
   (1::nat) < length (heap two_selectors) \<and>
   fst (ref_stringify 1
     (run_calls [(2, Attr, ''lang''), (2, Class, ''x'')]
        (snd (cssSelectorBuilder_call Class ''note'' two_selectors)))) = Inr ''table#data'' \<and>
   fst (ref_stringify 2
     (run_calls [(1, Class, ''wide''), (1, PseudoClass, ''hover'')]
        (snd (cssSelectorBuilder_call Class ''note'' two_selectors)))) = Inr ''.note'' \<and>
   fst (ref_stringify 2
     (run_calls [(2, Attr, ''lang''), (1, Class, ''wide''), (2, PseudoClass, ''focus'')]
        (snd (cssSelectorBuilder_call Class ''note'' two_selectors)))) =
   fst (ref_stringify 2
     (run_calls [(2, Attr, ''lang''), (2, PseudoClass, ''focus'')]
        (snd (cssSelectorBuilder_call Class ''note'' two_selectors))))"
proof -
  let ?w' = "snd (cssSelectorBuilder_call Class ''note'' two_selectors)"
  have e: "cssSelectorBuilder_call Class ''note'' two_selectors = (Inr 2, ?w')"
    using builder_call_fst [of Class "''note''" two_selectors]
    by (cases "cssSelectorBuilder_call Class ''note'' two_selectors")
       (simp add: two_selectors_heap)
  have v: "(1::nat) < length (heap two_selectors)"
    by (simp add: two_selectors_heap)
  from entry_returns_independent_expression [OF e v]
  have a: "\<forall>cs. (\<forall>c \<in> set cs. fst c = 2) \<longrightarrow>
             fst (ref_stringify 1 (run_calls cs ?w')) = fst (ref_stringify 1 two_selectors)"
    and b: "\<forall>cs. (\<forall>c \<in> set cs. fst c = 1) \<longrightarrow>
             fst (ref_stringify 2 (run_calls cs ?w')) = fst (ref_stringify 2 ?w')"
    and c: "\<forall>cs. fst (ref_stringify 2 (run_calls cs ?w')) =
             fst (ref_stringify 2 (run_calls (filter (\<lambda>c. fst c = 2) cs) ?w'))"
    and d: "heap ?w' ! 2 = snd (call Class ''note'' new_SimpleSelector)"
    by auto
  have 1: "fst (ref_stringify 1 (run_calls [(2, Attr, ''lang''), (2, Class, ''x'')] ?w')) =
      Inr ''table#data''"
  proof -
    have "\<forall>c \<in> set [(2::nat, Attr, ''lang''), (2, Class, ''x'')]. fst c = 2" by simp
    from a [THEN spec, THEN mp, OF this] show ?thesis
      by (simp add: ref_stringify_fst two_selectors_heap del: run_calls.simps)
  qed
  have 2: "fst (ref_stringify 2 (run_calls [(1, Class, ''wide''), (1, PseudoClass, ''hover'')] ?w')) =
      Inr ''.note''"
  proof -
    have "\<forall>c \<in> set [(1::nat, Class, ''wide''), (1, PseudoClass, ''hover'')]. fst c = 1" by simp
    from b [THEN spec, THEN mp, OF this] d show ?thesis
      by (simp add: ref_stringify_fst class_sel_def new_SimpleSelector_def pop_def push_def
          order_violated_def del: run_calls.simps)
  qed
  have 3: "fst (ref_stringify 2
     (run_calls [(2, Attr, ''lang''), (1, Class, ''wide''), (2, PseudoClass, ''focus'')] ?w')) =
   fst (ref_stringify 2 (run_calls [(2, Attr, ''lang''), (2, PseudoClass, ''focus'')] ?w'))"
    using c [rule_format, of "[(2, Attr, ''lang''), (1, Class, ''wide''), (2, PseudoClass, ''focus'')]"]
    by (simp del: run_calls.simps)
  have f: "fst (cssSelectorBuilder_call Class ''note'' two_selectors) = Inr 2"
    using builder_call_fst [of Class "''note''" two_selectors]
    by (simp add: two_selectors_heap)
  from f v 1 2 3 show ?thesis by blast
qed

end
